theory Spec2Isabelle
  imports Main "HOL-Library.Word"
begin

section \<open>Strings: \<open>strings.Split\<close> and \<open>strings.Join\<close>\<close>

text \<open>
  Go strings are byte sequences, here \<^typ>\<open>string\<close>. The registry only ever splits on
  the one-byte separator \<open>"."\<close>, so the separator of \<open>Split\<close> is a single character.
  \<open>strings.Split\<close> with a non-empty separator returns one more piece than there are
  separators: the empty string gives one empty piece.
\<close>

fun Split :: "string \<Rightarrow> char \<Rightarrow> string list" where
  "Split [] sep = [[]]"
| "Split (x # xs) sep =
     (if x = sep then [] # Split xs sep
      else (case Split xs sep of
              [] \<Rightarrow> [[x]]
            | p # ps \<Rightarrow> (x # p) # ps))"

fun Join :: "string list \<Rightarrow> string \<Rightarrow> string" where
  "Join [] sep = []"
| "Join [p] sep = p"
| "Join (p # q # ps) sep = p @ sep @ Join (q # ps) sep"

section \<open>The subject matcher\<close>

text \<open>
  The \<open>for i, wpart := range wparts\<close> loop of \<open>SubjectsMatch\<close>: \<open>i\<close> is the index of
  the pattern token \<open>wpart\<close>, the third argument holds the pattern tokens from \<open>i\<close> on.
  The read \<open>lparts[i]\<close> happens only after the guard \<open>len(lparts) <= i\<close> has failed.
\<close>

fun match_loop :: "string list \<Rightarrow> nat \<Rightarrow> string list \<Rightarrow> bool" where
  "match_loop lparts i [] = True"
| "match_loop lparts i (wpart # ws) =
     (if length lparts \<le> i then False
      else if wpart = ''*'' then match_loop lparts (Suc i) ws
      else if wpart = ''>'' then True
      else if lparts ! i \<noteq> wpart then False
      else match_loop lparts (Suc i) ws)"

definition SubjectsMatch :: "string \<Rightarrow> string \<Rightarrow> bool" where
  "SubjectsMatch literal wildcard =
     (if literal = wildcard then True
      else match_loop (Split literal (CHR ''.'')) 0 (Split wildcard (CHR ''.'')))"

text \<open>The tokens of a subject: \<open>strings.Split(s, ".")\<close>.\<close>

abbreviation tokens :: "string \<Rightarrow> string list" where
  "tokens s \<equiv> Split s (CHR ''.'')"

section \<open>Data model\<close>

type_synonym bytes = string
type_synonym uint64 = "64 word"

record Schema =
  Name :: string
  Subject :: string
  Revision :: uint64
  Type :: string
  Body :: string

text \<open>
  An entry of the store's change feed (\<open>nats.KeyValueEntry\<close>); the watch loop reads
  \<open>Value()\<close> and \<open>Revision()\<close> only. The value \<open>None\<close> of type
  \<open>KeyValueEntry option\<close> is the \<open>nil\<close> entry that ends the initial replay.
\<close>

datatype KeyValueOp = KeyValuePut | KeyValueDelete | KeyValuePurge

record KeyValueEntry =
  entry_Key :: string
  entry_Value :: bytes
  entry_Revision :: uint64
  entry_Operation :: KeyValueOp

text \<open>A request of the service API (\<open>micro.Request\<close>): \<open>r.Subject()\<close>, \<open>r.Data()\<close>.\<close>

record Request =
  req_Subject :: string
  req_Data :: bytes

text \<open>
  A bus message (\<open>nats.Msg\<close>). A header is a map from keys to value lists, and
  \<open>None\<close> is the \<open>nil\<close> header of a message that came without one.
\<close>

type_synonym Header = "string \<rightharpoonup> string list"

record Msg =
  msg_Subject :: string
  msg_Reply :: string
  msg_Data :: bytes
  msg_Header :: "Header option"

text \<open>The outcome of \<open>gojsonschema.Validate\<close>: \<open>result.Valid()\<close> and the texts
  \<open>desc.String()\<close> of \<open>result.Errors()\<close>.\<close>

record Result =
  Valid :: bool
  Errors :: "string list"

text \<open>
  The collaborators the registry calls and whose code is outside the repository, as
  parameters. A Go \<open>error\<close> is represented by its text \<open>err.Error()\<close>, the only thing
  the registry reads from it. The store's methods take the store's state and return the
  new one.
\<close>

record 'kv external =
  json_Unmarshal :: "bytes \<Rightarrow> string + Schema"
  json_Marshal :: "Schema \<Rightarrow> string + bytes"
  kv_Create :: "string \<Rightarrow> bytes \<Rightarrow> 'kv \<Rightarrow> (string + uint64) \<times> 'kv"
  kv_Put :: "string \<Rightarrow> bytes \<Rightarrow> 'kv \<Rightarrow> (string + uint64) \<times> 'kv"
  kv_Delete :: "string \<Rightarrow> 'kv \<Rightarrow> string option \<times> 'kv"
  kv_WatchAll :: "'kv \<Rightarrow> string + KeyValueEntry option list"
  gojsonschema_Validate :: "string \<Rightarrow> string \<Rightarrow> string + Result"
  nc_PublishMsg :: "Msg \<Rightarrow> string option"
  fmt_q :: "string \<Rightarrow> string"

text \<open>The registry: the store's state and the cache \<open>schemas\<close>.\<close>

record 'kv SchemaRegistry =
  kv :: 'kv
  schemas :: "string \<rightharpoonup> Schema"

text \<open>
  What a method does besides changing the registry, in the order it does it: the
  operations on \<open>schemasMu\<close>, the accesses to the map \<open>schemas\<close>, the lines written
  with \<open>log\<close> and with \<open>fmt.Println\<close>, the replies (\<open>r.Error\<close>, \<open>r.RespondJSON\<close>, \<open>r.Respond\<close> and \<open>m.Respond\<close>), the calls of
  \<open>nc.PublishMsg\<close>, and a run-time panic.
\<close>

datatype effect =
    RLock | RUnlock | Lock | Unlock
  | MapRead
  | MapWrite string
  | Log string
  | Println string
  | Error string string
  | RespondJSON Schema
  | Respond bytes
  | PublishMsg Msg
  | Panic

section \<open>Formatting\<close>

text \<open>\<open>fmt.Sprintf("%d", n)\<close> for an unsigned integer: its decimal digits.\<close>

definition digit :: "nat \<Rightarrow> char" where
  "digit d = ''0123456789'' ! d"

fun fmt_d :: "nat \<Rightarrow> string" where
  "fmt_d n = (if n < 10 then [digit n] else fmt_d (n div 10) @ [digit (n mod 10)])"

declare fmt_d.simps [simp del]

text \<open>The number that a string of decimal digits denotes.\<close>

definition digit_value :: "char \<Rightarrow> nat" where
  "digit_value c = of_char c - 48"

definition decimal_value :: "string \<Rightarrow> nat" where
  "decimal_value ds = foldl (\<lambda>acc c. 10 * acc + digit_value c) 0 ds"

section \<open>The cache and the watch loop\<close>

definition NewSchemaRegistry :: "'kv \<Rightarrow> 'kv SchemaRegistry" where
  "NewSchemaRegistry k = \<lparr>kv = k, schemas = Map.empty\<rparr>"

text \<open>One iteration of the goroutine of \<open>Watch\<close> on a value received from
  \<open>watcher.Updates()\<close>.\<close>

definition Watch_step ::
  "'kv external \<Rightarrow> KeyValueEntry option \<Rightarrow> 'kv SchemaRegistry
   \<Rightarrow> effect list \<times> 'kv SchemaRegistry" where
  "Watch_step ext update reg =
     (case update of
        None \<Rightarrow> ([Log ''Loaded initial schemas''], reg)
      | Some entry \<Rightarrow>
          (case json_Unmarshal ext (entry_Value entry) of
             Inl err \<Rightarrow> ([Log (''error unmarshaling schema: '' @ err)], reg)
           | Inr decoded \<Rightarrow>
               (let schema = decoded\<lparr>Revision := entry_Revision entry\<rparr>
                in ([Lock, MapWrite (Name schema), Unlock,
                     Log (''Loaded schema: '' @ fmt_q ext (Name schema) @ '' revision ''
                          @ fmt_d (unat (Revision schema)))],
                    reg\<lparr>schemas := (schemas reg)(Name schema \<mapsto> schema)\<rparr>))))"

text \<open>
  The goroutine's \<open>for\<close> loop, on the values it receives before the context is
  cancelled or the channel is closed: the loop has no other exit, so a run of it is
  determined by this finite sequence.
\<close>

fun Watch_loop ::
  "'kv external \<Rightarrow> KeyValueEntry option list \<Rightarrow> 'kv SchemaRegistry
   \<Rightarrow> effect list \<times> 'kv SchemaRegistry" where
  "Watch_loop ext [] reg = ([], reg)"
| "Watch_loop ext (update # updates) reg =
     (case Watch_step ext update reg of
        (es, reg') \<Rightarrow>
          (case Watch_loop ext updates reg' of
             (es', reg'') \<Rightarrow> (es @ es', reg'')))"

text \<open>
  \<open>Watch\<close>: the error of \<open>WatchAll\<close> is returned at once; otherwise the result is
  \<open>nil\<close> and the goroutine consumes the updates.
\<close>

definition Watch ::
  "'kv external \<Rightarrow> 'kv SchemaRegistry
   \<Rightarrow> string option \<times> effect list \<times> 'kv SchemaRegistry" where
  "Watch ext reg =
     (case kv_WatchAll ext (kv reg) of
        Inl err \<Rightarrow> (Some err, [], reg)
      | Inr updates \<Rightarrow> (None, Watch_loop ext updates reg))"

section \<open>The registration service\<close>

text \<open>\<open>parts[len(parts)-1]\<close>, the final token of the request's subject.\<close>

definition final_token :: "string \<Rightarrow> string" where
  "final_token subject = (let parts = tokens subject in parts ! (length parts - 1))"

definition RegisterSchema ::
  "'kv external \<Rightarrow> 'kv SchemaRegistry \<Rightarrow> Request \<Rightarrow> effect list \<times> 'kv SchemaRegistry" where
  "RegisterSchema ext reg r =
     (case json_Unmarshal ext (req_Data r) of
        Inl err \<Rightarrow> ([Error ''400'' err], reg)
      | Inr decoded \<Rightarrow>
          (let schema = decoded\<lparr>Name := final_token (req_Subject r)\<rparr>
           in case json_Marshal ext schema of
                Inl err \<Rightarrow> ([Error ''400'' err], reg)
              | Inr data \<Rightarrow>
                  (case kv_Create ext (Name schema) data (kv reg) of
                     (Inl err, kv') \<Rightarrow> ([Error ''500'' err], reg\<lparr>kv := kv'\<rparr>)
                   | (Inr revision, kv') \<Rightarrow>
                       ([RespondJSON (schema\<lparr>Revision := revision\<rparr>)], reg\<lparr>kv := kv'\<rparr>))))"

definition UnregisterSchema ::
  "'kv external \<Rightarrow> 'kv SchemaRegistry \<Rightarrow> Request \<Rightarrow> effect list \<times> 'kv SchemaRegistry" where
  "UnregisterSchema ext reg r =
     (let name = final_token (req_Subject r)
      in case kv_Delete ext name (kv reg) of
           (Some err, kv') \<Rightarrow> ([Error ''500'' err], reg\<lparr>kv := kv'\<rparr>)
         | (None, kv') \<Rightarrow> ([Respond []], reg\<lparr>kv := kv'\<rparr>))"

definition GetSchema :: "'kv SchemaRegistry \<Rightarrow> Request \<Rightarrow> effect list" where
  "GetSchema reg r =
     (let name = final_token (req_Subject r)
      in MapRead #
         (case schemas reg name of
            None \<Rightarrow> [Error ''404'' ''Not found'']
          | Some schema \<Rightarrow> [RespondJSON schema]))"

definition UpdateSchema ::
  "'kv external \<Rightarrow> 'kv SchemaRegistry \<Rightarrow> Request \<Rightarrow> effect list \<times> 'kv SchemaRegistry" where
  "UpdateSchema ext reg r =
     (case json_Unmarshal ext (req_Data r) of
        Inl err \<Rightarrow> ([Error ''400'' err], reg)
      | Inr decoded \<Rightarrow>
          (let schema = decoded\<lparr>Name := final_token (req_Subject r)\<rparr>
           in case json_Marshal ext schema of
                Inl err \<Rightarrow> ([Error ''400'' err], reg)
              | Inr data \<Rightarrow>
                  (case kv_Put ext (Name schema) data (kv reg) of
                     (Inl err, kv') \<Rightarrow> ([Error ''500'' err], reg\<lparr>kv := kv'\<rparr>)
                   | (Inr revision, kv') \<Rightarrow>
                       ([RespondJSON (schema\<lparr>Revision := revision\<rparr>)], reg\<lparr>kv := kv'\<rparr>))))"

section \<open>The validation dispatcher\<close>

text \<open>\<open>validate\<close> returns an error (here its text) or \<open>nil\<close>.\<close>

definition validate :: "'kv external \<Rightarrow> bytes \<Rightarrow> Schema \<Rightarrow> string option" where
  "validate ext data schema =
     (case gojsonschema_Validate ext (Body schema) data of
        Inl err \<Rightarrow> Some err
      | Inr result \<Rightarrow>
          (if \<not> Valid result
           then Some (''invalid payload: '' @ Join (Errors result) '', '')
           else None))"

definition NewMsg :: "string \<Rightarrow> Msg" where
  "NewMsg subject =
     \<lparr>msg_Subject = subject, msg_Reply = [], msg_Data = [], msg_Header = Some Map.empty\<rparr>"

definition Header_Set :: "string \<Rightarrow> string \<Rightarrow> Header \<Rightarrow> Header" where
  "Header_Set key val h = h(key \<mapsto> [val])"

text \<open>The message that \<open>ValidatePayload\<close> builds for a schema that accepted the payload.\<close>

definition forwarded :: "string \<Rightarrow> Msg \<Rightarrow> Schema \<Rightarrow> Msg" where
  "forwarded subject m schema =
     (let msg = (NewMsg subject)\<lparr>msg_Reply := msg_Reply m, msg_Data := msg_Data m,
                                  msg_Header := msg_Header m\<rparr>;
          h0 = (case msg_Header msg of None \<Rightarrow> Map.empty | Some h \<Rightarrow> h);
          h1 = Header_Set ''Schema-Name'' (Name schema) h0;
          h2 = Header_Set ''Schema-Revision'' (fmt_d (unat (Revision schema))) h1;
          h3 = Header_Set ''Schema-Subject'' (Subject schema) h2;
          h4 = Header_Set ''Schema-Type'' (Type schema) h3;
          h5 = Header_Set ''Schema-Validated'' ''true'' h4
      in msg\<lparr>msg_Header := Some h5\<rparr>)"

text \<open>
  The body of the \<open>range\<close> loop of \<open>ValidatePayload\<close> on the schemas in the order the
  iteration yields them. \<open>None\<close>: the loop ended without a \<open>return\<close>.
\<close>

fun ValidatePayload_loop ::
  "'kv external \<Rightarrow> string \<Rightarrow> Msg \<Rightarrow> Schema list \<Rightarrow> effect list option" where
  "ValidatePayload_loop ext subject m [] = None"
| "ValidatePayload_loop ext subject m (schema # rest) =
     (if \<not> SubjectsMatch subject (Subject schema)
      then ValidatePayload_loop ext subject m rest
      else (case validate ext (msg_Data m) schema of
              Some err \<Rightarrow> Some [Respond err]
            | None \<Rightarrow>
                (let msg = forwarded subject m schema
                 in case nc_PublishMsg ext msg of
                      Some err \<Rightarrow>
                        Some [PublishMsg msg, Log (''error publishing message: '' @ err),
                              Respond err]
                    | None \<Rightarrow> Some [PublishMsg msg])))"

text \<open>
  \<open>ValidatePayload\<close>. Go leaves the order of a \<open>range\<close> over a map unspecified: the
  argument \<open>order\<close> lists the keys of \<open>schemas\<close> in the order of this run. The slice
  expression \<open>parts[2:]\<close> panics when the subject has fewer than two tokens, after which
  the deferred \<open>RUnlock\<close> still runs.
\<close>

definition ValidatePayload ::
  "'kv external \<Rightarrow> 'kv SchemaRegistry \<Rightarrow> string list \<Rightarrow> Msg \<Rightarrow> effect list" where
  "ValidatePayload ext reg order m =
     (let parts = tokens (msg_Subject m)
      in if length parts < 2 then [RLock, RUnlock, Panic]
         else
           (let subject = Join (drop 2 parts) ''.''
            in case ValidatePayload_loop ext subject m
                      (List.map_filter (schemas reg) order) of
                 Some es \<Rightarrow> [RLock, MapRead] @ es @ [RUnlock]
               | None \<Rightarrow>
                   (let errorMessage =
                          ''could not find schema for subject '' @ fmt_q ext subject
                    in [RLock, MapRead, Println errorMessage, Respond errorMessage, RUnlock])))"

section \<open>The lock discipline\<close>

text \<open>
  Which side of \<open>schemasMu\<close> the running method holds, and whether every access to the
  map in a sequence of effects happens under it: a read under the read or the write
  lock, a write under the write lock.
\<close>

datatype held = Unheld | ReadHeld | WriteHeld

fun guarded :: "held \<Rightarrow> effect list \<Rightarrow> bool" where
  "guarded h [] = True"
| "guarded h (RLock # es) = guarded ReadHeld es"
| "guarded h (RUnlock # es) = guarded Unheld es"
| "guarded h (Lock # es) = guarded WriteHeld es"
| "guarded h (Unlock # es) = guarded Unheld es"
| "guarded h (MapRead # es) = (h \<noteq> Unheld \<and> guarded h es)"
| "guarded h (MapWrite k # es) = (h = WriteHeld \<and> guarded h es)"
| "guarded h (e # es) = guarded h es"

section \<open>A sample environment\<close>

text \<open>
  Modelled from the spec: the backing store, whose code is not in the repository, after
  the contract of the spec's external interfaces: \<open>Create\<close> fails with a conflict when
  the key exists, \<open>Put\<close> creates or replaces, \<open>Delete\<close> removes, every write is stamped
  with the next revision, and any operation can fail with a storage failure. It is used
  to run the registry on concrete inputs; the theorems about the registry hold for every
  store.
\<close>

record Store =
  store_entries :: "string \<rightharpoonup> bytes"
  store_revision :: uint64
  store_failure :: "string option"

definition store_Create :: "string \<Rightarrow> bytes \<Rightarrow> Store \<Rightarrow> (string + uint64) \<times> Store" where
  "store_Create key val st =
     (case store_failure st of
        Some err \<Rightarrow> (Inl err, st)
      | None \<Rightarrow>
          (if store_entries st key \<noteq> None then (Inl ''Conflict'', st)
           else (Inr (store_revision st + 1),
                 st\<lparr>store_entries := (store_entries st)(key \<mapsto> val),
                    store_revision := store_revision st + 1\<rparr>)))"

definition store_Put :: "string \<Rightarrow> bytes \<Rightarrow> Store \<Rightarrow> (string + uint64) \<times> Store" where
  "store_Put key val st =
     (case store_failure st of
        Some err \<Rightarrow> (Inl err, st)
      | None \<Rightarrow>
          (Inr (store_revision st + 1),
           st\<lparr>store_entries := (store_entries st)(key \<mapsto> val),
              store_revision := store_revision st + 1\<rparr>))"

definition store_Delete :: "string \<Rightarrow> Store \<Rightarrow> string option \<times> Store" where
  "store_Delete key st =
     (case store_failure st of
        Some err \<Rightarrow> (Some err, st)
      | None \<Rightarrow>
          (None,
           st\<lparr>store_entries := (store_entries st)(key := None),
              store_revision := store_revision st + 1\<rparr>))"

text \<open>
  A codec, a validator and a transport to run the registry on: the codec knows one
  document, \<open>numbers-doc\<close>, which carries a name and a revision of its own; the validator
  accepts the payload \<open>1\<close> against the body \<open>number\<close>, cannot load the payload \<open>abc\<close>,
  and rejects any other payload with two error descriptions; publishing succeeds.
\<close>

definition numbers_doc :: Schema where
  "numbers_doc =
     \<lparr>Name = ''embedded'', Subject = ''numbers.>'', Revision = 7,
      Type = ''jsonschema'', Body = ''number''\<rparr>"

definition sample_Unmarshal :: "bytes \<Rightarrow> string + Schema" where
  "sample_Unmarshal data =
     (if data = ''numbers-doc'' then Inr numbers_doc
      else if data = [] then Inl ''unexpected end of JSON input''
      else Inl ''invalid character'')"

definition sample_Marshal :: "Schema \<Rightarrow> string + bytes" where
  "sample_Marshal schema =
     Inr (Join [Name schema, Subject schema, Type schema, Body schema] '';'')"

definition sample_Validate :: "string \<Rightarrow> string \<Rightarrow> string + Result" where
  "sample_Validate schemaBody document =
     (if document = ''abc'' then Inl ''invalid character''
      else if schemaBody = ''number'' \<and> document = ''1''
      then Inr \<lparr>Valid = True, Errors = []\<rparr>
      else Inr \<lparr>Valid = False,
                Errors = [''(root): Invalid type'', ''(root): Must be a number'']\<rparr>)"

definition sample_ext :: "Store external" where
  "sample_ext =
     \<lparr>json_Unmarshal = sample_Unmarshal, json_Marshal = sample_Marshal,
      kv_Create = store_Create, kv_Put = store_Put, kv_Delete = store_Delete,
      kv_WatchAll = (\<lambda>st. Inr []),
      gojsonschema_Validate = sample_Validate,
      nc_PublishMsg = (\<lambda>msg. None),
      fmt_q = (\<lambda>s. CHR 0x22 # s @ [CHR 0x22])\<rparr>"

definition empty_store :: Store where
  "empty_store = \<lparr>store_entries = Map.empty, store_revision = 0, store_failure = None\<rparr>"

text \<open>The code of a reply made with \<open>r.Error\<close>.\<close>

fun error_code :: "effect \<Rightarrow> string option" where
  "error_code (Error code description) = Some code"
| "error_code e = None"

section \<open>Facts about splitting and joining\<close>

lemma Split_not_Nil: "Split s sep \<noteq> []"
  by (induction s) (auto split: list.splits)

lemma Join_Cons: "ps \<noteq> [] \<Longrightarrow> Join (p # ps) sep = p @ sep @ Join ps sep"
  by (cases ps) simp_all

lemma Join_Split: "Join (Split s sep) [sep] = s"
proof (induction s)
  case Nil
  show ?case by simp
next
  case (Cons x xs)
  show ?case
  proof (cases "x = sep")
    case True
    with Cons show ?thesis by (simp add: Join_Cons Split_not_Nil)
  next
    case False
    obtain p ps where sp: "Split xs sep = p # ps"
      using Split_not_Nil [of xs sep] by (cases "Split xs sep") auto
    have "Join ((x # p) # ps) [sep] = x # Join (p # ps) [sep]"
      by (cases ps) simp_all
    with Cons False sp show ?thesis by simp
  qed
qed

lemma Split_inject: "Split a sep = Split b sep \<Longrightarrow> a = b"
  by (metis Join_Split)

lemma Split_prefix_token:
  "sep \<notin> set a \<Longrightarrow> Split (a @ sep # s) sep = a # Split s sep"
  by (induction a) auto

lemma digit_value_digit: "d < 10 \<Longrightarrow> digit_value (digit d) = d"
proof -
  assume "d < 10"
  then have "d \<in> {0, 1, 2, 3, 4, 5, 6, 7, 8, 9}" by auto
  then show ?thesis
    by (auto simp: digit_value_def digit_def)
qed

lemma decimal_value_fmt_d: "decimal_value (fmt_d n) = n"
proof (induction n rule: fmt_d.induct)
  case (1 n)
  show ?case
  proof (cases "n < 10")
    case True
    then show ?thesis
      by (simp add: fmt_d.simps [of n] decimal_value_def digit_value_digit)
  next
    case False
    have "decimal_value (fmt_d n) = 10 * decimal_value (fmt_d (n div 10)) + n mod 10"
      using False by (simp add: fmt_d.simps [of n] decimal_value_def digit_value_digit)
    with 1 False show ?thesis by simp
  qed
qed

section \<open>Facts about the matching loop\<close>

lemma match_loop_prefix:
  "i + length ws \<le> length lparts \<Longrightarrow>
   (\<forall>j < length ws. ws ! j = ''*'' \<or> ws ! j = lparts ! (i + j)) \<Longrightarrow>
   match_loop lparts i ws"
proof (induction ws arbitrary: i)
  case Nil
  show ?case by simp
next
  case (Cons w ws)
  have head: "w = ''*'' \<or> w = lparts ! i"
    using Cons.prems(2) by (auto dest: spec [of _ 0])
  have rest: "\<forall>j < length ws. ws ! j = ''*'' \<or> ws ! j = lparts ! (Suc i + j)"
    using Cons.prems(2) by (auto dest: spec [of _ "Suc j" for j])
  have "match_loop lparts (Suc i) ws"
    using Cons.IH [of "Suc i"] Cons.prems(1) rest by simp
  with head Cons.prems(1) show ?case by auto
qed

lemma match_loop_catch_all:
  "k < length ws \<Longrightarrow> i + k < length lparts \<Longrightarrow> ws ! k = ''>'' \<Longrightarrow>
   (\<forall>j < k. ws ! j = ''*'' \<or> ws ! j = lparts ! (i + j)) \<Longrightarrow>
   match_loop lparts i ws"
proof (induction ws arbitrary: i k)
  case Nil
  then show ?case by simp
next
  case (Cons w ws)
  show ?case
  proof (cases k)
    case 0
    with Cons.prems show ?thesis by simp
  next
    case (Suc k')
    have head: "w = ''*'' \<or> w = lparts ! i"
      using Cons.prems(4) Suc by (auto dest: spec [of _ 0])
    have rest: "\<forall>j < k'. ws ! j = ''*'' \<or> ws ! j = lparts ! (Suc i + j)"
      using Cons.prems(4) Suc by (auto dest: spec [of _ "Suc j" for j])
    have "match_loop lparts (Suc i) ws"
      using Cons.IH [of k' "Suc i"] Cons.prems Suc rest by simp
    with head Cons.prems(2) show ?thesis by auto
  qed
qed

lemma match_loop_exhausted:
  "i \<le> length lparts \<Longrightarrow> length lparts < i + length ws \<Longrightarrow>
   ''>'' \<notin> set (take (length lparts - i) ws) \<Longrightarrow>
   \<not> match_loop lparts i ws"
proof (induction ws arbitrary: i)
  case Nil
  then show ?case by simp
next
  case (Cons w ws)
  show ?case
  proof (cases "length lparts \<le> i")
    case True
    then show ?thesis by simp
  next
    case False
    then have d: "length lparts - i = Suc (length lparts - Suc i)" by simp
    have nw: "w \<noteq> ''>''" and nws: "''>'' \<notin> set (take (length lparts - Suc i) ws)"
      using Cons.prems(3) unfolding d by auto
    have "\<not> match_loop lparts (Suc i) ws"
      using Cons.IH [of "Suc i"] False Cons.prems(2) nws by simp
    with nw False show ?thesis by simp
  qed
qed

lemma match_loop_mismatch:
  "k < length ws \<Longrightarrow> i + k < length lparts \<Longrightarrow> ''>'' \<notin> set (take k ws) \<Longrightarrow>
   ws ! k \<noteq> ''*'' \<Longrightarrow> ws ! k \<noteq> ''>'' \<Longrightarrow> ws ! k \<noteq> lparts ! (i + k) \<Longrightarrow>
   \<not> match_loop lparts i ws"
proof (induction ws arbitrary: i k)
  case Nil
  then show ?case by simp
next
  case (Cons w ws)
  show ?case
  proof (cases k)
    case 0
    with Cons.prems show ?thesis by auto
  next
    case (Suc k')
    have nw: "w \<noteq> ''>''" and nws: "''>'' \<notin> set (take k' ws)"
      using Cons.prems(3) Suc by auto
    have "\<not> match_loop lparts (Suc i) ws"
      using Cons.IH [of k' "Suc i"] Cons.prems Suc nws by simp
    with nw show ?thesis by simp
  qed
qed

lemma match_loop_cases:
  "match_loop lp i ws \<Longrightarrow>
   (\<exists>k<length ws. i + k < length lp \<and> ws ! k = ''>''
        \<and> (\<forall>j<k. ws ! j = ''*'' \<or> ws ! j = lp ! (i + j)))
   \<or> ((ws = [] \<or> i + length ws \<le> length lp)
        \<and> (\<forall>j<length ws. ws ! j = ''*'' \<or> ws ! j = lp ! (i + j)))"
proof (induction ws arbitrary: i)
  case Nil
  show ?case by simp
next
  case (Cons w ws)
  from Cons.prems have i: "i < length lp"
    by (simp split: if_splits)
  show ?case
  proof (cases "w = ''>''")
    case True
    with i have "0 < length (w # ws) \<and> i + 0 < length lp \<and> (w # ws) ! 0 = ''>''
        \<and> (\<forall>j<0. (w # ws) ! j = ''*'' \<or> (w # ws) ! j = lp ! (i + j))" by simp
    then show ?thesis by blast
  next
    case False
    with Cons.prems i have head: "w = ''*'' \<or> w = lp ! i" and tail: "match_loop lp (Suc i) ws"
      by (auto split: if_splits)
    from Cons.IH [OF tail] show ?thesis
    proof
      assume "\<exists>k<length ws. Suc i + k < length lp \<and> ws ! k = ''>''
        \<and> (\<forall>j<k. ws ! j = ''*'' \<or> ws ! j = lp ! (Suc i + j))"
      then obtain k where k: "k < length ws" "Suc i + k < length lp" "ws ! k = ''>''"
        "\<forall>j<k. ws ! j = ''*'' \<or> ws ! j = lp ! (Suc i + j)" by blast
      have "\<forall>j<Suc k. (w # ws) ! j = ''*'' \<or> (w # ws) ! j = lp ! (i + j)"
        using head k(4) by (auto simp: nth_Cons' less_Suc_eq_0_disj)
      with k have "Suc k < length (w # ws) \<and> i + Suc k < length lp \<and> (w # ws) ! Suc k = ''>''
        \<and> (\<forall>j<Suc k. (w # ws) ! j = ''*'' \<or> (w # ws) ! j = lp ! (i + j))" by simp
      then show ?thesis by blast
    next
      assume a: "(ws = [] \<or> Suc i + length ws \<le> length lp)
        \<and> (\<forall>j<length ws. ws ! j = ''*'' \<or> ws ! j = lp ! (Suc i + j))"
      have "\<forall>j<length (w # ws). (w # ws) ! j = ''*'' \<or> (w # ws) ! j = lp ! (i + j)"
        using head a by (auto simp: nth_Cons' less_Suc_eq_0_disj)
      moreover have "i + length (w # ws) \<le> length lp" using a i by auto
      ultimately show ?thesis by blast
    qed
  qed
qed

section \<open>Facts about \<open>SubjectsMatch\<close>\<close>

lemma SubjectsMatch_tokens_differ:
  "tokens L \<noteq> tokens P \<Longrightarrow> SubjectsMatch L P = match_loop (tokens L) 0 (tokens P)"
  by (auto simp: SubjectsMatch_def)

lemma SubjectsMatch_prefix:
  assumes "length (tokens P) \<le> length (tokens L)"
    and "\<forall>j < length (tokens P). tokens P ! j = ''*'' \<or> tokens P ! j = tokens L ! j"
  shows "SubjectsMatch L P"
  using match_loop_prefix [of 0 "tokens P" "tokens L"] assms
  by (simp add: SubjectsMatch_def)

text \<open>What \<open>SubjectsMatch\<close> computes, in closed form.\<close>

lemma SubjectsMatch_iff:
  "SubjectsMatch L P \<longleftrightarrow>
     L = P
     \<or> (\<exists>k<length (tokens P). k < length (tokens L) \<and> tokens P ! k = ''>''
          \<and> (\<forall>j<k. tokens P ! j = ''*'' \<or> tokens P ! j = tokens L ! j))
     \<or> (length (tokens P) \<le> length (tokens L)
          \<and> (\<forall>j<length (tokens P). tokens P ! j = ''*'' \<or> tokens P ! j = tokens L ! j))"
proof
  assume m: "SubjectsMatch L P"
  show "L = P
     \<or> (\<exists>k<length (tokens P). k < length (tokens L) \<and> tokens P ! k = ''>''
          \<and> (\<forall>j<k. tokens P ! j = ''*'' \<or> tokens P ! j = tokens L ! j))
     \<or> (length (tokens P) \<le> length (tokens L)
          \<and> (\<forall>j<length (tokens P). tokens P ! j = ''*'' \<or> tokens P ! j = tokens L ! j))"
  proof (cases "L = P")
    case True
    then show ?thesis by simp
  next
    case False
    with m have "match_loop (tokens L) 0 (tokens P)" by (simp add: SubjectsMatch_def)
    from match_loop_cases [OF this] show ?thesis
      by (simp add: Split_not_Nil)
  qed
next
  assume "L = P
     \<or> (\<exists>k<length (tokens P). k < length (tokens L) \<and> tokens P ! k = ''>''
          \<and> (\<forall>j<k. tokens P ! j = ''*'' \<or> tokens P ! j = tokens L ! j))
     \<or> (length (tokens P) \<le> length (tokens L)
          \<and> (\<forall>j<length (tokens P). tokens P ! j = ''*'' \<or> tokens P ! j = tokens L ! j))"
  then show "SubjectsMatch L P"
    using match_loop_catch_all [of _ "tokens P" 0 "tokens L"] SubjectsMatch_prefix [of P L]
    by (auto simp: SubjectsMatch_def)
qed

text \<open>
  Claim C1. A pattern without the token \<open>>\<close> whose tokens match a strict prefix of the
  literal's tokens must not match: trailing literal tokens need a multi-token wildcard.
  The loop of \<open>SubjectsMatch\<close> ends with \<open>return true\<close> without comparing the two
  lengths, so the literal \<open>foo.bar.baz\<close> is accepted by the pattern \<open>foo.bar\<close>.
\<close>

theorem SubjectsMatch_trailing_tokens_accepted:
  "tokens ''foo.bar.baz'' = [''foo'', ''bar'', ''baz''] \<and>
   tokens ''foo.bar'' = [''foo'', ''bar''] \<and>
   SubjectsMatch ''foo.bar.baz'' ''foo.bar'' = True"
  by (simp add: SubjectsMatch_def)

text \<open>
  Claim C3, as stated: a pattern whose token at position \<open>k\<close> is \<open>>\<close> matches also a
  literal of exactly \<open>k\<close> tokens. It does not: the guard \<open>len(lparts) <= i\<close> is tested
  before the wildcard, so \<open>foo.>\<close> rejects the literal \<open>foo\<close>.
\<close>

theorem SubjectsMatch_catch_all_counterexample:
  "tokens ''foo'' = [''foo''] \<and> tokens ''foo.>'' = [''foo'', ''>''] \<and>
   SubjectsMatch ''foo'' ''foo.>'' = False"
  by (simp add: SubjectsMatch_def)

text \<open>
  Claim C3, amended. If the pattern's token at position \<open>k\<close> is \<open>>\<close>, the pattern's
  tokens before \<open>k\<close> match the literal's tokens at the same positions, and the literal
  has a token at position \<open>k\<close>, then \<open>SubjectsMatch\<close> returns true, wherever \<open>k\<close> falls
  in the pattern and however many literal tokens follow.
\<close>

theorem SubjectsMatch_catch_all:
  assumes "k < length (tokens P)"
    and "k < length (tokens L)"
    and "tokens P ! k = ''>''"
    and "\<forall>j < k. tokens P ! j = ''*'' \<or> tokens P ! j = tokens L ! j"
  shows "SubjectsMatch L P = True"
  using match_loop_catch_all [of k "tokens P" 0 "tokens L"] assms
  by (simp add: SubjectsMatch_def)

theorem SubjectsMatch_catch_all_witness:
  "tokens ''foo.>.qux'' ! 1 = ''>'' \<and> SubjectsMatch ''foo.bar.baz'' ''foo.>.qux'' = True"
proof -
  have h1: "1 < length (tokens ''foo.>.qux'')" by simp
  have h2: "1 < length (tokens ''foo.bar.baz'')" by simp
  have h3: "tokens ''foo.>.qux'' ! 1 = ''>''" by simp
  have h4: "\<forall>j < 1. tokens ''foo.>.qux'' ! j = ''*''
              \<or> tokens ''foo.>.qux'' ! j = tokens ''foo.bar.baz'' ! j" by simp
  from SubjectsMatch_catch_all [OF h1 h2 h3 h4] h3 show ?thesis by blast
qed

text \<open>
  Claim C7. \<open>SubjectsMatch\<close> accepts two identical strings, whatever they are; a pattern
  of as many tokens as the literal, each \<open>*\<close> or equal to the literal's token at its
  position, matches; a pattern token other than \<open>*\<close> and \<open>>\<close> that the walk reaches
  (no \<open>>\<close> before it) and that differs from the literal's token there makes the result
  false, and token equality is equality of byte strings, so case matters; a literal that
  runs out of tokens while the walk still has pattern tokens (no \<open>>\<close> among the pattern
  tokens it has consumed) gives false. The five examples of the test file hold.
\<close>

theorem SubjectsMatch_rules:
  "SubjectsMatch L L = True
   \<and> (length (tokens P) = length (tokens L)
        \<and> (\<forall>j < length (tokens P). tokens P ! j = ''*'' \<or> tokens P ! j = tokens L ! j)
      \<longrightarrow> SubjectsMatch L P = True)
   \<and> (k < length (tokens P) \<and> k < length (tokens L) \<and> ''>'' \<notin> set (take k (tokens P))
        \<and> tokens P ! k \<noteq> ''*'' \<and> tokens P ! k \<noteq> ''>'' \<and> tokens P ! k \<noteq> tokens L ! k
      \<longrightarrow> SubjectsMatch L P = False)
   \<and> (length (tokens L) < length (tokens P)
        \<and> ''>'' \<notin> set (take (length (tokens L)) (tokens P))
      \<longrightarrow> SubjectsMatch L P = False)
   \<and> SubjectsMatch ''foo.bar'' ''foo.bar'' = True
   \<and> SubjectsMatch ''foo.bar'' ''foo.*'' = True
   \<and> SubjectsMatch ''foo.bar'' ''foo.>'' = True
   \<and> SubjectsMatch ''foo.bar'' ''>'' = True
   \<and> SubjectsMatch ''foo.bar'' ''bar.>'' = False"
proof -
  have same: "SubjectsMatch L L = True"
    by (simp add: SubjectsMatch_def)
  have star: "SubjectsMatch L P = True"
    if "length (tokens P) = length (tokens L)"
      and "\<forall>j < length (tokens P). tokens P ! j = ''*'' \<or> tokens P ! j = tokens L ! j"
    using SubjectsMatch_prefix [of P L] that by simp
  have differ: "SubjectsMatch L P = False"
    if "k < length (tokens P)" "k < length (tokens L)" "''>'' \<notin> set (take k (tokens P))"
      "tokens P ! k \<noteq> ''*''" "tokens P ! k \<noteq> ''>''" "tokens P ! k \<noteq> tokens L ! k"
  proof -
    have "tokens L \<noteq> tokens P" using that(6) by auto
    moreover have "\<not> match_loop (tokens L) 0 (tokens P)"
      using match_loop_mismatch [of k "tokens P" 0 "tokens L"] that by simp
    ultimately show ?thesis by (simp add: SubjectsMatch_tokens_differ)
  qed
  have short: "SubjectsMatch L P = False"
    if "length (tokens L) < length (tokens P)"
      "''>'' \<notin> set (take (length (tokens L)) (tokens P))"
  proof -
    have "tokens L \<noteq> tokens P" using that(1) by auto
    moreover have "\<not> match_loop (tokens L) 0 (tokens P)"
      using match_loop_exhausted [of 0 "tokens L" "tokens P"] that by simp
    ultimately show ?thesis by (simp add: SubjectsMatch_tokens_differ)
  qed
  have ex1: "SubjectsMatch ''foo.bar'' ''foo.bar'' = True" by (simp add: SubjectsMatch_def)
  have ex2: "SubjectsMatch ''foo.bar'' ''foo.*'' = True" by (simp add: SubjectsMatch_def)
  have ex3: "SubjectsMatch ''foo.bar'' ''foo.>'' = True" by (simp add: SubjectsMatch_def)
  have ex4: "SubjectsMatch ''foo.bar'' ''>'' = True" by (simp add: SubjectsMatch_def)
  have ex5: "SubjectsMatch ''foo.bar'' ''bar.>'' = False" by (simp add: SubjectsMatch_def)
  from same star differ short ex1 ex2 ex3 ex4 ex5 show ?thesis by blast
qed

theorem SubjectsMatch_rules_witness:
  "SubjectsMatch ''a.b.c'' ''a.*.c'' = True
   \<and> SubjectsMatch ''foo.Bar'' ''foo.bar'' = False
   \<and> SubjectsMatch ''foo'' ''foo.bar'' = False"
proof -
  have a: "length (tokens ''a.*.c'') = length (tokens ''a.b.c'')
        \<and> (\<forall>j < length (tokens ''a.*.c'').
              tokens ''a.*.c'' ! j = ''*'' \<or> tokens ''a.*.c'' ! j = tokens ''a.b.c'' ! j)"
    by (simp add: nth_Cons' less_Suc_eq)
  have b: "1 < length (tokens ''foo.bar'') \<and> 1 < length (tokens ''foo.Bar'')
        \<and> ''>'' \<notin> set (take 1 (tokens ''foo.bar''))
        \<and> tokens ''foo.bar'' ! 1 \<noteq> ''*'' \<and> tokens ''foo.bar'' ! 1 \<noteq> ''>''
        \<and> tokens ''foo.bar'' ! 1 \<noteq> tokens ''foo.Bar'' ! 1"
    by simp
  have c: "length (tokens ''foo'') < length (tokens ''foo.bar'')
        \<and> ''>'' \<notin> set (take (length (tokens ''foo'')) (tokens ''foo.bar''))"
    by simp
  have "SubjectsMatch ''a.b.c'' ''a.*.c'' = True"
    using SubjectsMatch_rules [of "''a.b.c''" "''a.*.c''" 0] a by blast
  moreover have "SubjectsMatch ''foo.Bar'' ''foo.bar'' = False"
    using SubjectsMatch_rules [of "''foo.Bar''" "''foo.bar''" 1] b by blast
  moreover have "SubjectsMatch ''foo'' ''foo.bar'' = False"
    using SubjectsMatch_rules [of "''foo''" "''foo.bar''" 0] c by blast
  ultimately show ?thesis by blast
qed

section \<open>Facts about the registration service\<close>

lemma final_token_last: "final_token subject = last (tokens subject)"
  by (simp add: final_token_def Let_def last_conv_nth Split_not_Nil)

text \<open>
  Claim C2, as stated: a name that already exists in the store makes \<open>RegisterSchema\<close>
  fail with a conflict that the caller can tell from a generic storage failure. The
  method passes every error of \<open>Create\<close> to \<open>r.Error\<close> with the code \<open>500\<close>: on the
  sample store, registering a name that exists and registering while the store fails
  are both answered with the code \<open>500\<close>.
\<close>

theorem RegisterSchema_conflict_counterexample:
  "store_entries (empty_store\<lparr>store_entries := [''my_cool_schema'' \<mapsto> ''old'']\<rparr>)
     (final_token ''$SCHEMA.REGISTER.my_cool_schema'') = Some ''old''
   \<and> map error_code
         (fst (RegisterSchema sample_ext
                 (NewSchemaRegistry
                    (empty_store\<lparr>store_entries := [''my_cool_schema'' \<mapsto> ''old'']\<rparr>))
                 \<lparr>req_Subject = ''$SCHEMA.REGISTER.my_cool_schema'',
                  req_Data = ''numbers-doc''\<rparr>))
       = [Some ''500'']
   \<and> map error_code
         (fst (RegisterSchema sample_ext
                 (NewSchemaRegistry (empty_store\<lparr>store_failure := Some ''StorageFailure''\<rparr>))
                 \<lparr>req_Subject = ''$SCHEMA.REGISTER.my_cool_schema'',
                  req_Data = ''numbers-doc''\<rparr>))
       = [Some ''500'']"
  by (simp add: RegisterSchema_def final_token_def sample_ext_def sample_Unmarshal_def
      sample_Marshal_def store_Create_def NewSchemaRegistry_def empty_store_def
      numbers_doc_def)

text \<open>
  Claim C2, amended. \<open>RegisterSchema\<close> answers a body that cannot be decoded with the
  code \<open>400\<close> and the decoder's text; it answers any error of the store's \<open>Create\<close>, the
  conflict of an existing name like every other failure, with the code \<open>500\<close> and the
  store's text; and when \<open>Create\<close> succeeds it responds with the decoded schema, named
  by the final token of the subject and carrying the revision that \<open>Create\<close> returned.
\<close>

theorem RegisterSchema_outcomes:
  "(json_Unmarshal ext (req_Data r) = Inl err
      \<longrightarrow> RegisterSchema ext reg r = ([Error ''400'' err], reg))
   \<and> (json_Unmarshal ext (req_Data r) = Inr decoded
        \<and> json_Marshal ext (decoded\<lparr>Name := final_token (req_Subject r)\<rparr>) = Inr data
        \<and> kv_Create ext (final_token (req_Subject r)) data (kv reg) = (Inl err, kv')
      \<longrightarrow> RegisterSchema ext reg r = ([Error ''500'' err], reg\<lparr>kv := kv'\<rparr>))
   \<and> (json_Unmarshal ext (req_Data r) = Inr decoded
        \<and> json_Marshal ext (decoded\<lparr>Name := final_token (req_Subject r)\<rparr>) = Inr data
        \<and> kv_Create ext (final_token (req_Subject r)) data (kv reg) = (Inr revision, kv')
      \<longrightarrow> RegisterSchema ext reg r =
            ([RespondJSON (decoded\<lparr>Name := final_token (req_Subject r),
                                   Revision := revision\<rparr>)],
             reg\<lparr>kv := kv'\<rparr>))"
  by (simp add: RegisterSchema_def Let_def)

theorem RegisterSchema_outcomes_witness:
  "RegisterSchema sample_ext (NewSchemaRegistry empty_store)
     \<lparr>req_Subject = ''$SCHEMA.REGISTER.my_cool_schema'', req_Data = ''{''\<rparr>
     = ([Error ''400'' ''invalid character''], NewSchemaRegistry empty_store)
   \<and> RegisterSchema sample_ext
       (NewSchemaRegistry (empty_store\<lparr>store_entries := [''my_cool_schema'' \<mapsto> ''old'']\<rparr>))
       \<lparr>req_Subject = ''$SCHEMA.REGISTER.my_cool_schema'', req_Data = ''numbers-doc''\<rparr>
     = ([Error ''500'' ''Conflict''],
        NewSchemaRegistry (empty_store\<lparr>store_entries := [''my_cool_schema'' \<mapsto> ''old'']\<rparr>))
   \<and> fst (RegisterSchema sample_ext (NewSchemaRegistry empty_store)
       \<lparr>req_Subject = ''$SCHEMA.REGISTER.my_cool_schema'', req_Data = ''numbers-doc''\<rparr>)
     = [RespondJSON (numbers_doc\<lparr>Name := ''my_cool_schema'', Revision := 1\<rparr>)]"
proof -
  let ?subject = "''$SCHEMA.REGISTER.my_cool_schema''"
  let ?full = "empty_store\<lparr>store_entries := [''my_cool_schema'' \<mapsto> ''old'']\<rparr>"
  let ?data = "''my_cool_schema;numbers.>;jsonschema;number''"
  have name: "final_token ?subject = ''my_cool_schema''"
    by (simp add: final_token_def)
  have bad: "json_Unmarshal sample_ext ''{'' = Inl ''invalid character''"
    by (simp add: sample_ext_def sample_Unmarshal_def)
  have dec: "json_Unmarshal sample_ext ''numbers-doc'' = Inr numbers_doc"
    by (simp add: sample_ext_def sample_Unmarshal_def)
  have enc: "json_Marshal sample_ext (numbers_doc\<lparr>Name := ''my_cool_schema''\<rparr>) = Inr ?data"
    by (simp add: sample_ext_def sample_Marshal_def numbers_doc_def)
  have conflict: "kv_Create sample_ext ''my_cool_schema'' ?data ?full = (Inl ''Conflict'', ?full)"
    by (simp add: sample_ext_def store_Create_def empty_store_def)
  have created: "kv_Create sample_ext ''my_cool_schema'' ?data empty_store
      = (Inr 1, empty_store\<lparr>store_entries := [''my_cool_schema'' \<mapsto> ?data],
                             store_revision := 1\<rparr>)"
    by (simp add: sample_ext_def store_Create_def empty_store_def)
  have one: "RegisterSchema sample_ext (NewSchemaRegistry empty_store)
       \<lparr>req_Subject = ?subject, req_Data = ''{''\<rparr>
     = ([Error ''400'' ''invalid character''], NewSchemaRegistry empty_store)"
    using RegisterSchema_outcomes
      [of sample_ext "\<lparr>req_Subject = ?subject, req_Data = ''{''\<rparr>" "''invalid character''"
          "NewSchemaRegistry empty_store"]
      bad by simp
  have two: "RegisterSchema sample_ext (NewSchemaRegistry ?full)
       \<lparr>req_Subject = ?subject, req_Data = ''numbers-doc''\<rparr>
     = ([Error ''500'' ''Conflict''], NewSchemaRegistry ?full)"
    using RegisterSchema_outcomes
      [of sample_ext "\<lparr>req_Subject = ?subject, req_Data = ''numbers-doc''\<rparr>" "''Conflict''"
          "NewSchemaRegistry ?full" numbers_doc ?data ?full]
      dec enc conflict name by (simp add: NewSchemaRegistry_def)
  have three: "fst (RegisterSchema sample_ext (NewSchemaRegistry empty_store)
       \<lparr>req_Subject = ?subject, req_Data = ''numbers-doc''\<rparr>)
     = [RespondJSON (numbers_doc\<lparr>Name := ''my_cool_schema'', Revision := 1\<rparr>)]"
    using RegisterSchema_outcomes
      [of sample_ext "\<lparr>req_Subject = ?subject, req_Data = ''numbers-doc''\<rparr>" _
          "NewSchemaRegistry empty_store" numbers_doc ?data
          "empty_store\<lparr>store_entries := [''my_cool_schema'' \<mapsto> ?data],
                        store_revision := 1\<rparr>" 1]
      dec enc created name by (simp add: NewSchemaRegistry_def)
  from one two three show ?thesis by blast
qed

section \<open>Facts about the watch loop\<close>

lemma Watch_loop_append:
  "Watch_loop ext (xs @ ys) reg =
     (fst (Watch_loop ext xs reg) @ fst (Watch_loop ext ys (snd (Watch_loop ext xs reg))),
      snd (Watch_loop ext ys (snd (Watch_loop ext xs reg))))"
  by (induction xs arbitrary: reg) (auto split: prod.splits)

lemma Watch_loop_Cons:
  "Watch_loop ext (u # us) reg =
     (fst (Watch_step ext u reg) @ fst (Watch_loop ext us (snd (Watch_step ext u reg))),
      snd (Watch_loop ext us (snd (Watch_step ext u reg))))"
  by (auto split: prod.splits)

lemma Watch_loop_after:
  assumes "Watch_loop ext before reg = (es, reg1)"
  shows "Watch_loop ext (before @ u # rest) reg =
     (es @ fst (Watch_step ext u reg1) @ fst (Watch_loop ext rest (snd (Watch_step ext u reg1))),
      snd (Watch_loop ext rest (snd (Watch_step ext u reg1))))"
  using assms by (simp add: Watch_loop_append Watch_loop_Cons del: Watch_loop.simps)

lemma Watch_subscription_error:
  "kv_WatchAll ext (kv reg) = Inl err \<Longrightarrow> Watch ext reg = (Some err, [], reg)"
  by (simp add: Watch_def)

lemma Watch_started:
  "kv_WatchAll ext (kv reg) = Inr updates \<Longrightarrow> Watch ext reg = (None, Watch_loop ext updates reg)"
  by (simp add: Watch_def)

lemma Watch_step_dom: "dom (schemas reg) \<subseteq> dom (schemas (snd (Watch_step ext u reg)))"
  by (auto simp: Watch_step_def Let_def split: option.splits sum.splits)

lemma Watch_step_kv: "kv (snd (Watch_step ext u reg)) = kv reg"
  by (auto simp: Watch_step_def Let_def split: option.splits sum.splits)

lemma Watch_loop_dom: "dom (schemas reg) \<subseteq> dom (schemas (snd (Watch_loop ext us reg)))"
proof (induction us arbitrary: reg)
  case Nil
  show ?case by simp
next
  case (Cons u us)
  have "dom (schemas reg) \<subseteq> dom (schemas (snd (Watch_step ext u reg)))"
    by (rule Watch_step_dom)
  also have "\<dots> \<subseteq> dom (schemas (snd (Watch_loop ext us (snd (Watch_step ext u reg)))))"
    by (rule Cons.IH)
  finally show ?case by (simp add: Watch_loop_Cons del: Watch_loop.simps)
qed

lemma Watch_loop_kv: "kv (snd (Watch_loop ext us reg)) = kv reg"
proof (induction us arbitrary: reg)
  case Nil
  show ?case by simp
next
  case (Cons u us)
  then show ?case
    by (simp add: Watch_loop_Cons Watch_step_kv del: Watch_loop.simps)
qed

text \<open>
  Claim C6. Take any sequence of updates that the loop consumes, and any update in it;
  let \<open>reg1\<close> be the registry after the updates before it. If its payload decodes, the
  cache entry under the decoded name becomes the decoded record with the revision
  replaced by the entry's revision, whatever revision the payload carried; if its
  payload does not decode, one line is logged and the cache stays as it was; the \<open>nil\<close>
  update logs one line and changes nothing. In the three cases the loop goes on with
  the updates that follow.
\<close>

theorem Watch_loop_update:
  assumes "Watch_loop ext before reg = (es, reg1)"
  shows
   "(json_Unmarshal ext (entry_Value entry) = Inr decoded \<longrightarrow>
       Watch_loop ext (before @ Some entry # rest) reg =
         (es @ [Lock, MapWrite (Name decoded), Unlock,
                Log (''Loaded schema: '' @ fmt_q ext (Name decoded) @ '' revision ''
                     @ fmt_d (unat (entry_Revision entry)))]
             @ fst (Watch_loop ext rest
                      (reg1\<lparr>schemas := (schemas reg1)
                          (Name decoded \<mapsto> decoded\<lparr>Revision := entry_Revision entry\<rparr>)\<rparr>)),
          snd (Watch_loop ext rest
                 (reg1\<lparr>schemas := (schemas reg1)
                     (Name decoded \<mapsto> decoded\<lparr>Revision := entry_Revision entry\<rparr>)\<rparr>))))
    \<and> (json_Unmarshal ext (entry_Value entry) = Inl err \<longrightarrow>
       Watch_loop ext (before @ Some entry # rest) reg =
         (es @ [Log (''error unmarshaling schema: '' @ err)]
             @ fst (Watch_loop ext rest reg1),
          snd (Watch_loop ext rest reg1)))
    \<and> Watch_loop ext (before @ None # rest) reg =
         (es @ [Log ''Loaded initial schemas''] @ fst (Watch_loop ext rest reg1),
          snd (Watch_loop ext rest reg1))"
proof -
  have ok: "Watch_step ext (Some entry) reg1 =
      ([Lock, MapWrite (Name decoded), Unlock,
        Log (''Loaded schema: '' @ fmt_q ext (Name decoded) @ '' revision ''
             @ fmt_d (unat (entry_Revision entry)))],
       reg1\<lparr>schemas := (schemas reg1)
           (Name decoded \<mapsto> decoded\<lparr>Revision := entry_Revision entry\<rparr>)\<rparr>)"
    if "json_Unmarshal ext (entry_Value entry) = Inr decoded"
    using that by (simp add: Watch_step_def Let_def)
  have bad: "Watch_step ext (Some entry) reg1 =
      ([Log (''error unmarshaling schema: '' @ err)], reg1)"
    if "json_Unmarshal ext (entry_Value entry) = Inl err"
    using that by (simp add: Watch_step_def)
  have nil: "Watch_step ext None reg1 = ([Log ''Loaded initial schemas''], reg1)"
    by (simp add: Watch_step_def)
  show ?thesis
    using Watch_loop_after [OF assms, of "Some entry" rest]
      Watch_loop_after [OF assms, of None rest] ok bad nil
    by (auto simp del: Watch_loop.simps)
qed

theorem Watch_loop_update_witness:
  "schemas (snd (Watch_loop sample_ext
      [Some \<lparr>entry_Key = ''k'', entry_Value = ''{'', entry_Revision = 1,
              entry_Operation = KeyValuePut\<rparr>,
       None,
       Some \<lparr>entry_Key = ''k'', entry_Value = ''numbers-doc'', entry_Revision = 3,
              entry_Operation = KeyValuePut\<rparr>]
      (NewSchemaRegistry empty_store)))
   = [''embedded'' \<mapsto> numbers_doc\<lparr>Revision := 3\<rparr>]
   \<and> Revision numbers_doc = 7"
proof -
  let ?bad = "\<lparr>entry_Key = ''k'', entry_Value = ''{'', entry_Revision = 1,
                entry_Operation = KeyValuePut\<rparr>"
  let ?good = "\<lparr>entry_Key = ''k'', entry_Value = ''numbers-doc'', entry_Revision = 3,
                 entry_Operation = KeyValuePut\<rparr>"
  let ?reg = "NewSchemaRegistry empty_store :: Store SchemaRegistry"
  have start: "Watch_loop sample_ext [] ?reg = ([], ?reg)" by simp
  have bad: "json_Unmarshal sample_ext (entry_Value ?bad) = Inl ''invalid character''"
    by (simp add: sample_ext_def sample_Unmarshal_def)
  have good: "json_Unmarshal sample_ext (entry_Value ?good) = Inr numbers_doc"
    by (simp add: sample_ext_def sample_Unmarshal_def)
  have s1: "Watch_loop sample_ext [Some ?bad] ?reg
      = ([Log ''error unmarshaling schema: invalid character''], ?reg)"
    using Watch_loop_update [OF start, where entry = ?bad and err = "''invalid character''"
        and rest = "[]"] bad by simp
  have s2: "Watch_loop sample_ext [Some ?bad, None] ?reg
      = ([Log ''error unmarshaling schema: invalid character'',
          Log ''Loaded initial schemas''], ?reg)"
    using Watch_loop_update [OF s1, where rest = "[]"] by simp
  have "schemas (snd (Watch_loop sample_ext [Some ?bad, None, Some ?good] ?reg))
      = (schemas ?reg)(Name numbers_doc \<mapsto> numbers_doc\<lparr>Revision := 3\<rparr>)"
    using Watch_loop_update [OF s2, where entry = ?good and decoded = numbers_doc
        and rest = "[]"] good by simp
  then show ?thesis
    by (simp add: NewSchemaRegistry_def numbers_doc_def)
qed

text \<open>
  Claim C8. \<open>UnregisterSchema\<close> calls the store's \<open>Delete\<close> on the final token of the
  subject and keeps the store's new state; it replies with an empty payload when
  \<open>Delete\<close> succeeds and with the code \<open>500\<close> and the store's text when it fails; it
  leaves the cache as it was. The watch loop, whatever updates it consumes, never drops
  a key of the cache. So a name that is cached is still cached after it has been
  unregistered and the loop has consumed any further updates, the deletion among them.
\<close>

theorem UnregisterSchema_keeps_cache:
  "(kv_Delete ext (final_token (req_Subject r)) (kv reg) = (None, kv')
      \<longrightarrow> UnregisterSchema ext reg r = ([Respond []], reg\<lparr>kv := kv'\<rparr>))
   \<and> (kv_Delete ext (final_token (req_Subject r)) (kv reg) = (Some err, kv')
      \<longrightarrow> UnregisterSchema ext reg r = ([Error ''500'' err], reg\<lparr>kv := kv'\<rparr>))
   \<and> kv (snd (UnregisterSchema ext reg r))
       = snd (kv_Delete ext (final_token (req_Subject r)) (kv reg))
   \<and> schemas (snd (UnregisterSchema ext reg r)) = schemas reg
   \<and> dom (schemas reg0) \<subseteq> dom (schemas (snd (Watch_loop ext updates reg0)))
   \<and> (name \<in> dom (schemas reg)
      \<longrightarrow> name \<in> dom (schemas (snd (Watch_loop ext updates
                                        (snd (UnregisterSchema ext reg r))))))"
proof -
  have cache: "schemas (snd (UnregisterSchema ext reg r)) = schemas reg"
    by (simp add: UnregisterSchema_def Let_def split: prod.splits option.splits)
  have store: "kv (snd (UnregisterSchema ext reg r))
       = snd (kv_Delete ext (final_token (req_Subject r)) (kv reg))"
    by (simp add: UnregisterSchema_def Let_def split: prod.splits option.splits)
  have ok: "UnregisterSchema ext reg r = ([Respond []], reg\<lparr>kv := kv'\<rparr>)"
    if "kv_Delete ext (final_token (req_Subject r)) (kv reg) = (None, kv')"
    using that by (simp add: UnregisterSchema_def Let_def)
  have failed: "UnregisterSchema ext reg r = ([Error ''500'' err], reg\<lparr>kv := kv'\<rparr>)"
    if "kv_Delete ext (final_token (req_Subject r)) (kv reg) = (Some err, kv')"
    using that by (simp add: UnregisterSchema_def Let_def)
  have grows: "dom (schemas reg0) \<subseteq> dom (schemas (snd (Watch_loop ext updates reg0)))"
    by (rule Watch_loop_dom)
  have stays: "name \<in> dom (schemas (snd (Watch_loop ext updates
                                        (snd (UnregisterSchema ext reg r)))))"
    if "name \<in> dom (schemas reg)"
    using that cache Watch_loop_dom [of "snd (UnregisterSchema ext reg r)" ext updates]
    by auto
  from cache store ok failed grows stays show ?thesis by blast
qed

theorem UnregisterSchema_keeps_cache_witness:
  "UnregisterSchema sample_ext
     \<lparr>kv = empty_store\<lparr>store_entries := [''embedded'' \<mapsto> ''numbers-doc''],
                       store_revision := 1\<rparr>,
      schemas = [''embedded'' \<mapsto> numbers_doc\<lparr>Revision := 1\<rparr>]\<rparr>
     \<lparr>req_Subject = ''$SCHEMA.UNREGISTER.embedded'', req_Data = []\<rparr>
   = ([Respond []],
      \<lparr>kv = empty_store\<lparr>store_entries := Map.empty, store_revision := 2\<rparr>,
       schemas = [''embedded'' \<mapsto> numbers_doc\<lparr>Revision := 1\<rparr>]\<rparr>)
   \<and> ''embedded'' \<in> dom (schemas (snd (Watch_loop sample_ext
        [Some \<lparr>entry_Key = ''embedded'', entry_Value = [], entry_Revision = 2,
                entry_Operation = KeyValueDelete\<rparr>]
        (snd (UnregisterSchema sample_ext
           \<lparr>kv = empty_store\<lparr>store_entries := [''embedded'' \<mapsto> ''numbers-doc''],
                             store_revision := 1\<rparr>,
            schemas = [''embedded'' \<mapsto> numbers_doc\<lparr>Revision := 1\<rparr>]\<rparr>
           \<lparr>req_Subject = ''$SCHEMA.UNREGISTER.embedded'', req_Data = []\<rparr>)))))"
proof -
  let ?reg = "\<lparr>kv = empty_store\<lparr>store_entries := [''embedded'' \<mapsto> ''numbers-doc''],
                                store_revision := 1\<rparr>,
               schemas = [''embedded'' \<mapsto> numbers_doc\<lparr>Revision := 1\<rparr>]\<rparr>"
  let ?r = "\<lparr>req_Subject = ''$SCHEMA.UNREGISTER.embedded'', req_Data = []\<rparr>"
  let ?del = "\<lparr>entry_Key = ''embedded'', entry_Value = [], entry_Revision = 2,
                entry_Operation = KeyValueDelete\<rparr>"
  have name: "final_token (req_Subject ?r) = ''embedded''"
    by (simp add: final_token_def)
  have del: "kv_Delete sample_ext (final_token (req_Subject ?r)) (kv ?reg)
      = (None, empty_store\<lparr>store_entries := Map.empty, store_revision := 2\<rparr>)"
    unfolding name by (simp add: sample_ext_def store_Delete_def empty_store_def)
  have cached: "''embedded'' \<in> dom (schemas ?reg)" by simp
  note facts = UnregisterSchema_keeps_cache
      [where ext = sample_ext and reg = ?reg and r = ?r and name = "''embedded''"
         and kv' = "empty_store\<lparr>store_entries := Map.empty, store_revision := 2\<rparr>"
         and updates = "[Some ?del]"]
  have one: "UnregisterSchema sample_ext ?reg ?r
      = ([Respond []], ?reg\<lparr>kv := empty_store\<lparr>store_entries := Map.empty,
                                                store_revision := 2\<rparr>\<rparr>)"
    using facts del by blast
  have two: "''embedded'' \<in> dom (schemas (snd (Watch_loop sample_ext [Some ?del]
                                              (snd (UnregisterSchema sample_ext ?reg ?r)))))"
    using facts cached by blast
  from one two show ?thesis by simp
qed

text \<open>
  Claim C10. When the payload of an update decodes, the cache entry that the loop writes
  is the one under the \<open>Name\<close> of the decoded record, not the one under the entry's key:
  if the two differ, the entry under the store's key is left as it was. The payloads
  that \<open>RegisterSchema\<close> and \<open>UpdateSchema\<close> write to the store under a key are
  serialisations of a schema whose \<open>Name\<close> has been set to that key, the final token of
  the subject.
\<close>

theorem Watch_loop_keyed_by_payload_name:
  assumes "Watch_loop ext before reg = (es, reg1)"
    and "json_Unmarshal ext (entry_Value entry) = Inr decoded"
  shows
   "schemas (snd (Watch_loop ext (before @ [Some entry]) reg))
      = (schemas reg1)(Name decoded \<mapsto> decoded\<lparr>Revision := entry_Revision entry\<rparr>)
    \<and> (Name decoded \<noteq> entry_Key entry \<longrightarrow>
         schemas (snd (Watch_loop ext (before @ [Some entry]) reg)) (entry_Key entry)
           = schemas reg1 (entry_Key entry))
    \<and> (json_Unmarshal ext (req_Data r) = Inr d
         \<and> json_Marshal ext (d\<lparr>Name := final_token (req_Subject r)\<rparr>) = Inr data
       \<longrightarrow> Name (d\<lparr>Name := final_token (req_Subject r)\<rparr>) = final_token (req_Subject r)
           \<and> kv (snd (RegisterSchema ext reg0 r))
               = snd (kv_Create ext (final_token (req_Subject r)) data (kv reg0))
           \<and> kv (snd (UpdateSchema ext reg0 r))
               = snd (kv_Put ext (final_token (req_Subject r)) data (kv reg0)))"
proof -
  have step: "Watch_step ext (Some entry) reg1 =
      ([Lock, MapWrite (Name decoded), Unlock,
        Log (''Loaded schema: '' @ fmt_q ext (Name decoded) @ '' revision ''
             @ fmt_d (unat (entry_Revision entry)))],
       reg1\<lparr>schemas := (schemas reg1)
           (Name decoded \<mapsto> decoded\<lparr>Revision := entry_Revision entry\<rparr>)\<rparr>)"
    using assms(2) by (simp add: Watch_step_def Let_def)
  have cache: "schemas (snd (Watch_loop ext (before @ [Some entry]) reg))
      = (schemas reg1)(Name decoded \<mapsto> decoded\<lparr>Revision := entry_Revision entry\<rparr>)"
    using Watch_loop_after [OF assms(1), of "Some entry" "[]"] step by simp
  have other: "schemas (snd (Watch_loop ext (before @ [Some entry]) reg)) (entry_Key entry)
           = schemas reg1 (entry_Key entry)"
    if "Name decoded \<noteq> entry_Key entry"
    using that cache by simp
  have reg: "kv (snd (RegisterSchema ext reg0 r))
               = snd (kv_Create ext (final_token (req_Subject r)) data (kv reg0))"
    if "json_Unmarshal ext (req_Data r) = Inr d"
      "json_Marshal ext (d\<lparr>Name := final_token (req_Subject r)\<rparr>) = Inr data"
    using that by (simp add: RegisterSchema_def Let_def split: prod.splits sum.splits)
  have upd: "kv (snd (UpdateSchema ext reg0 r))
               = snd (kv_Put ext (final_token (req_Subject r)) data (kv reg0))"
    if "json_Unmarshal ext (req_Data r) = Inr d"
      "json_Marshal ext (d\<lparr>Name := final_token (req_Subject r)\<rparr>) = Inr data"
    using that by (simp add: UpdateSchema_def Let_def split: prod.splits sum.splits)
  have nm: "Name (d\<lparr>Name := final_token (req_Subject r)\<rparr>) = final_token (req_Subject r)"
    by simp
  from cache other reg upd nm show ?thesis by blast
qed

theorem Watch_loop_keyed_by_payload_name_witness:
  "schemas (snd (Watch_loop sample_ext
      ([] @ [Some \<lparr>entry_Key = ''my_cool_schema'', entry_Value = ''numbers-doc'',
                    entry_Revision = 2, entry_Operation = KeyValuePut\<rparr>])
      \<lparr>kv = empty_store, schemas = [''my_cool_schema'' \<mapsto> numbers_doc\<lparr>Revision := 1\<rparr>]\<rparr>))
   = [''my_cool_schema'' \<mapsto> numbers_doc\<lparr>Revision := 1\<rparr>,
      ''embedded'' \<mapsto> numbers_doc\<lparr>Revision := 2\<rparr>]
   \<and> store_entries (kv (snd (RegisterSchema sample_ext (NewSchemaRegistry empty_store)
        \<lparr>req_Subject = ''$SCHEMA.REGISTER.my_cool_schema'', req_Data = ''numbers-doc''\<rparr>)))
      = [''my_cool_schema'' \<mapsto> ''my_cool_schema;numbers.>;jsonschema;number'']"
proof -
  let ?entry = "\<lparr>entry_Key = ''my_cool_schema'', entry_Value = ''numbers-doc'',
                  entry_Revision = 2, entry_Operation = KeyValuePut\<rparr>"
  let ?reg = "\<lparr>kv = empty_store,
               schemas = [''my_cool_schema'' \<mapsto> numbers_doc\<lparr>Revision := 1\<rparr>]\<rparr>"
  let ?r = "\<lparr>req_Subject = ''$SCHEMA.REGISTER.my_cool_schema'', req_Data = ''numbers-doc''\<rparr>"
  let ?data = "''my_cool_schema;numbers.>;jsonschema;number''"
  have start: "Watch_loop sample_ext [] ?reg = ([], ?reg)" by simp
  have dec: "json_Unmarshal sample_ext (entry_Value ?entry) = Inr numbers_doc"
    by (simp add: sample_ext_def sample_Unmarshal_def)
  have name: "final_token (req_Subject ?r) = ''my_cool_schema''"
    by (simp add: final_token_def)
  have dec': "json_Unmarshal sample_ext (req_Data ?r) = Inr numbers_doc"
    by (simp add: sample_ext_def sample_Unmarshal_def)
  have enc: "json_Marshal sample_ext (numbers_doc\<lparr>Name := final_token (req_Subject ?r)\<rparr>)
      = Inr ?data"
    unfolding name by (simp add: sample_ext_def sample_Marshal_def numbers_doc_def)
  note facts = Watch_loop_keyed_by_payload_name
      [OF start dec, where r = ?r and d = numbers_doc and data = ?data
         and ?reg0.0 = "NewSchemaRegistry empty_store"]
  have one: "schemas (snd (Watch_loop sample_ext ([] @ [Some ?entry]) ?reg))
      = (schemas ?reg)(Name numbers_doc \<mapsto> numbers_doc\<lparr>Revision := entry_Revision ?entry\<rparr>)"
    using facts by blast
  have two: "kv (snd (RegisterSchema sample_ext (NewSchemaRegistry empty_store) ?r))
      = snd (kv_Create sample_ext (final_token (req_Subject ?r)) ?data
               (kv (NewSchemaRegistry empty_store)))"
    using facts dec' enc by blast
  have three: "store_entries (snd (kv_Create sample_ext (final_token (req_Subject ?r)) ?data
               (kv (NewSchemaRegistry empty_store)))) = [''my_cool_schema'' \<mapsto> ?data]"
    unfolding name
    by (simp add: sample_ext_def store_Create_def NewSchemaRegistry_def empty_store_def)
  have four: "(schemas ?reg)(Name numbers_doc \<mapsto> numbers_doc\<lparr>Revision := entry_Revision ?entry\<rparr>)
      = [''my_cool_schema'' \<mapsto> numbers_doc\<lparr>Revision := 1\<rparr>,
         ''embedded'' \<mapsto> numbers_doc\<lparr>Revision := 2\<rparr>]"
    by (simp add: numbers_doc_def)
  from one two three four show ?thesis by simp
qed

section \<open>Facts about the validation dispatcher\<close>

lemma ValidatePayload_loop_skip:
  "\<forall>s \<in> set pre. \<not> SubjectsMatch subject (Subject s) \<Longrightarrow>
   ValidatePayload_loop ext subject m (pre @ rest) = ValidatePayload_loop ext subject m rest"
  by (induction pre) simp_all



lemma governed_subject:
  assumes "CHR ''.'' \<notin> set a" and "CHR ''.'' \<notin> set b"
  shows "Join (drop 2 (tokens (a @ ''.'' @ b @ ''.'' @ governed))) ''.'' = governed"
proof -
  have "tokens (a @ ''.'' @ b @ ''.'' @ governed) = a # b # tokens governed"
    using assms by (simp add: Split_prefix_token)
  then show ?thesis
    using Join_Split [of governed "CHR ''.''"] by simp
qed



text \<open>
  Claim C5. Let the inbound subject have the two tokens of the routing prefix and let
  \<open>subject\<close> be the governed subject; if the inbound subject is \<open>a.b.governed\<close> then
  \<open>subject\<close> is \<open>governed\<close>. If the first schema of the scan whose pattern matches
  accepts the payload, \<open>ValidatePayload\<close> calls \<open>PublishMsg\<close> once, with the message
  whose subject is the governed subject, whose reply target and payload are those of
  the inbound message, and whose header is the inbound header (the empty header when
  there was none) with the five audit keys set, each to a single value: the schema's
  name, the decimal digits of its revision, its subject pattern, its type, and \<open>true\<close>.
  Only if the transport refuses the message is there more: a log line and a reply with
  the transport's error.
\<close>

theorem ValidatePayload_forwards:
  assumes "2 \<le> length (tokens (msg_Subject m))"
    and "subject = Join (drop 2 (tokens (msg_Subject m))) ''.''"
    and "List.map_filter (schemas reg) order = pre @ schema # rest"
    and "\<forall>s \<in> set pre. \<not> SubjectsMatch subject (Subject s)"
    and "SubjectsMatch subject (Subject schema)"
    and "gojsonschema_Validate ext (Body schema) (msg_Data m) = Inr result"
    and "Valid result"
    and "msg = \<lparr>msg_Subject = subject, msg_Reply = msg_Reply m, msg_Data = msg_Data m,
                msg_Header = Some
                  ((case msg_Header m of None \<Rightarrow> Map.empty | Some h \<Rightarrow> h)
                     (''Schema-Name'' \<mapsto> [Name schema],
                      ''Schema-Revision'' \<mapsto> [fmt_d (unat (Revision schema))],
                      ''Schema-Subject'' \<mapsto> [Subject schema],
                      ''Schema-Type'' \<mapsto> [Type schema],
                      ''Schema-Validated'' \<mapsto> [''true'']))\<rparr>"
  shows
   "ValidatePayload ext reg order m =
      [RLock, MapRead, PublishMsg msg]
      @ (case nc_PublishMsg ext msg of
           None \<Rightarrow> []
         | Some err \<Rightarrow> [Log (''error publishing message: '' @ err), Respond err])
      @ [RUnlock]
    \<and> decimal_value (fmt_d (unat (Revision schema))) = unat (Revision schema)
    \<and> (\<forall>a b governed. msg_Subject m = a @ ''.'' @ b @ ''.'' @ governed
          \<and> CHR ''.'' \<notin> set a \<and> CHR ''.'' \<notin> set b \<longrightarrow> subject = governed)"
proof -
  have len: "\<not> length (tokens (msg_Subject m)) < 2"
    using assms(1) by simp
  have fwd: "forwarded subject m schema = msg"
    unfolding assms(8)
    by (simp add: forwarded_def NewMsg_def Header_Set_def Let_def split: option.splits)
  have "validate ext (msg_Data m) schema = None"
    using assms(6,7) by (simp add: validate_def)
  then have "ValidatePayload_loop ext subject m (List.map_filter (schemas reg) order)
      = Some (PublishMsg msg #
              (case nc_PublishMsg ext msg of
                 None \<Rightarrow> []
               | Some err \<Rightarrow> [Log (''error publishing message: '' @ err), Respond err]))"
    using assms(3,5) ValidatePayload_loop_skip [OF assms(4), of ext m "schema # rest"] fwd
    by (simp add: Let_def split: option.splits)
  then have run: "ValidatePayload ext reg order m =
      [RLock, MapRead, PublishMsg msg]
      @ (case nc_PublishMsg ext msg of
           None \<Rightarrow> []
         | Some err \<Rightarrow> [Log (''error publishing message: '' @ err), Respond err])
      @ [RUnlock]"
    using len assms(2) by (simp add: ValidatePayload_def Let_def)
  have strip: "subject = governed"
    if "msg_Subject m = a @ ''.'' @ b @ ''.'' @ governed"
      "CHR ''.'' \<notin> set a" "CHR ''.'' \<notin> set b" for a b governed
    using governed_subject [OF that(2,3), of governed] that(1) assms(2) by simp
  from run strip decimal_value_fmt_d [of "unat (Revision schema)"] show ?thesis by blast
qed

theorem ValidatePayload_forwards_witness:
  "ValidatePayload sample_ext
     \<lparr>kv = empty_store,
      schemas = [''my_cool_schema'' \<mapsto>
                   numbers_doc\<lparr>Name := ''my_cool_schema'', Revision := 12\<rparr>]\<rparr>
     [''my_cool_schema'']
     \<lparr>msg_Subject = ''$SCHEMA.VALIDATE.numbers.foobar'', msg_Reply = ''_INBOX.1'',
      msg_Data = ''1'', msg_Header = Some [''Trace'' \<mapsto> [''t1'']]\<rparr>
   = [RLock, MapRead,
      PublishMsg
        \<lparr>msg_Subject = ''numbers.foobar'', msg_Reply = ''_INBOX.1'', msg_Data = ''1'',
         msg_Header = Some [''Trace'' \<mapsto> [''t1''],
                            ''Schema-Name'' \<mapsto> [''my_cool_schema''],
                            ''Schema-Revision'' \<mapsto> [''12''],
                            ''Schema-Subject'' \<mapsto> [''numbers.>''],
                            ''Schema-Type'' \<mapsto> [''jsonschema''],
                            ''Schema-Validated'' \<mapsto> [''true'']]\<rparr>,
      RUnlock]"
proof -
  let ?schema = "numbers_doc\<lparr>Name := ''my_cool_schema'', Revision := 12\<rparr>"
  let ?reg = "\<lparr>kv = empty_store, schemas = [''my_cool_schema'' \<mapsto> ?schema]\<rparr>"
  let ?m = "\<lparr>msg_Subject = ''$SCHEMA.VALIDATE.numbers.foobar'', msg_Reply = ''_INBOX.1'',
              msg_Data = ''1'', msg_Header = Some [''Trace'' \<mapsto> [''t1'']]\<rparr>"
  let ?result = "\<lparr>Valid = True, Errors = []\<rparr>"
  let ?msg = "\<lparr>msg_Subject = ''numbers.foobar'', msg_Reply = msg_Reply ?m,
                msg_Data = msg_Data ?m,
                msg_Header = Some
                  ((case msg_Header ?m of None \<Rightarrow> Map.empty | Some h \<Rightarrow> h)
                     (''Schema-Name'' \<mapsto> [Name ?schema],
                      ''Schema-Revision'' \<mapsto> [fmt_d (unat (Revision ?schema))],
                      ''Schema-Subject'' \<mapsto> [Subject ?schema],
                      ''Schema-Type'' \<mapsto> [Type ?schema],
                      ''Schema-Validated'' \<mapsto> [''true'']))\<rparr>"
  have len: "2 \<le> length (tokens (msg_Subject ?m))" by simp
  have subj: "''numbers.foobar'' = Join (drop 2 (tokens (msg_Subject ?m))) ''.''" by simp
  have scan: "List.map_filter (schemas ?reg) [''my_cool_schema''] = [] @ ?schema # []"
    by (simp add: List.map_filter_def)
  have pre: "\<forall>s \<in> set []. \<not> SubjectsMatch ''numbers.foobar'' (Subject s)" by simp
  have match: "SubjectsMatch ''numbers.foobar'' (Subject ?schema)"
    by (simp add: SubjectsMatch_def numbers_doc_def)
  have accepted: "gojsonschema_Validate sample_ext (Body ?schema) (msg_Data ?m) = Inr ?result"
    by (simp add: sample_ext_def sample_Validate_def numbers_doc_def)
  have valid: "Valid ?result" by simp
  have run: "ValidatePayload sample_ext ?reg [''my_cool_schema''] ?m =
      [RLock, MapRead, PublishMsg ?msg]
      @ (case nc_PublishMsg sample_ext ?msg of
           None \<Rightarrow> []
         | Some err \<Rightarrow> [Log (''error publishing message: '' @ err), Respond err])
      @ [RUnlock]"
    using ValidatePayload_forwards [OF len subj scan pre match accepted valid refl]
    by blast
  have sent: "nc_PublishMsg sample_ext ?msg = None"
    by (simp add: sample_ext_def)
  have twelve: "fmt_d 12 = ''12''"
    by (simp add: fmt_d.simps [of 12] fmt_d.simps [of "Suc 0"] digit_def)
  show ?thesis
    unfolding run sent by (simp add: twelve numbers_doc_def)
qed

section \<open>Facts about the lock discipline\<close>

lemma guarded_ValidatePayload_loop:
  "ValidatePayload_loop ext subject m ss = Some es \<Longrightarrow> guarded h (es @ after) = guarded h after"
  by (induction ss)
     (auto simp: Let_def split: if_splits option.splits)

lemma guarded_Watch_step:
  "guarded h (fst (Watch_step ext u reg) @ es) =
     guarded (if fst (Watch_step ext u reg) = [] \<or> (\<exists>t. fst (Watch_step ext u reg) = [Log t])
              then h else Unheld) es"
  by (auto simp: Watch_step_def Let_def split: option.splits sum.splits)

lemma guarded_Watch_loop: "guarded h (fst (Watch_loop ext us reg))"
proof (induction us arbitrary: h reg)
  case Nil
  show ?case by simp
next
  case (Cons u us)
  show ?case
    by (simp add: Watch_loop_Cons guarded_Watch_step Cons.IH del: Watch_loop.simps)
qed

text \<open>
  Claim C9. Every read of the map \<open>schemas\<close> must happen under \<open>schemasMu\<close>, as the write
  of the watch loop does. \<open>ValidatePayload\<close> iterates under the read lock and the watch
  loop writes under the write lock, but \<open>GetSchema\<close> reads \<open>reg.schemas[name]\<close> without
  taking the lock at all.
\<close>

theorem GetSchema_reads_unlocked:
  "guarded Unheld (GetSchema reg r) = False
   \<and> guarded Unheld (ValidatePayload ext reg order m) = True
   \<and> guarded Unheld (fst (Watch_loop ext updates reg)) = True"
proof -
  have get: "guarded Unheld (GetSchema reg r) = False"
    by (simp add: GetSchema_def Let_def)
  have val: "guarded Unheld (ValidatePayload ext reg order m) = True"
    using guarded_ValidatePayload_loop [of ext _ m _ _ ReadHeld "[RUnlock]"]
    by (auto simp: ValidatePayload_def Let_def split: option.splits)
  have watch: "guarded Unheld (fst (Watch_loop ext updates reg)) = True"
    using guarded_Watch_loop [of Unheld ext updates reg] by simp
  from get val watch show ?thesis by blast
qed

end
